theory Spec2Isabelle
  imports Main "HOL-Library.Word"
begin

section \<open>Byte buffers\<close>

text \<open>
  The source works on Node.js \<open>Buffer\<close> objects: fixed-length arrays of bytes.  A buffer is
  modelled as a list of 8-bit words; the three library operations the source calls are
  written out with the behaviour Node gives them.
\<close>

type_synonym byte = "8 word"
type_synonym buffer = "byte list"

text \<open>
  \<open>Buffer.allocUnsafe(n)\<close>: a buffer of \<open>n\<close> bytes whose contents are not initialised.
  The model fills it with zeros; the reassembler only ever reads bytes it has written before
  (lemma \<open>messageBuffer_pending\<close> below).
\<close>

definition allocUnsafe :: "nat \<Rightarrow> buffer" where
  "allocUnsafe n = replicate n 0"

text \<open>
  \<open>buf.indexOf(value)\<close> for a one-byte \<open>value\<close>: the offset of the first occurrence,
  \<open>-1\<close> (here \<open>None\<close>) when there is none.
\<close>

fun indexOf :: "buffer \<Rightarrow> byte \<Rightarrow> nat option" where
  "indexOf [] b = None"
| "indexOf (x # xs) b = (if x = b then Some 0 else map_option Suc (indexOf xs b))"

text \<open>
  \<open>source.copy(target, targetStart, sourceStart, sourceEnd)\<close>: copies
  \<open>source[sourceStart .. sourceEnd)\<close> into \<open>target\<close> from \<open>targetStart\<close> on and returns
  the number of bytes copied.  Nothing is copied when \<open>targetStart\<close> is at or past the end
  of the target or the source range is empty; a range that does not fit into the rest of the
  target is cut off there.  The target keeps its length.
\<close>

definition copy :: "buffer \<Rightarrow> buffer \<Rightarrow> nat \<Rightarrow> nat \<Rightarrow> nat \<Rightarrow> buffer \<times> nat" where
  "copy source target targetStart sourceStart sourceEnd =
     (if length target \<le> targetStart \<or> sourceEnd \<le> sourceStart then (target, 0)
      else
        let nb = min (min (sourceEnd - sourceStart) (length target - targetStart))
                     (length source - sourceStart)
        in (take targetStart target @ take nb (drop sourceStart source)
              @ drop (targetStart + nb) target, nb))"

text \<open>\<open>buf.slice(start, end)\<close> for \<open>0 \<le> start\<close>, \<open>end \<le> buf.length\<close>.\<close>

definition slice :: "buffer \<Rightarrow> nat \<Rightarrow> nat \<Rightarrow> buffer" where
  "slice buf start end = take (end - start) (drop start buf)"

section \<open>The stream reassembler\<close>

text \<open>
  The two variables captured by the closure around \<open>collectDataAndFireMessageEvent_\<close>:
  the accumulation buffer and the write cursor.
\<close>

record closure =
  temporaryBuffer :: buffer
  writeCursor :: nat

text \<open>The size handed to \<open>Buffer.allocUnsafe\<close> for the accumulation buffer.\<close>

definition capacity :: nat where
  "capacity = 1024 * 10"

text \<open>The closure's state when the module has just been loaded.\<close>

definition initialClosure :: closure where
  "initialClosure = \<lparr>temporaryBuffer = allocUnsafe capacity, writeCursor = 0\<rparr>"

text \<open>
  \<open>writeCursor += data.copy(temporaryBuffer, writeCursor, 0, sourceEnd)\<close>, the statement
  both branches of the loop use to push bytes of the chunk into the accumulation buffer.
\<close>

definition pushData :: "closure \<Rightarrow> buffer \<Rightarrow> nat \<Rightarrow> closure" where
  "pushData s data sourceEnd =
     (let (tb, nb) = copy data (temporaryBuffer s) (writeCursor s) 0 sourceEnd
      in s\<lparr>temporaryBuffer := tb, writeCursor := writeCursor s + nb\<rparr>)"

text \<open>
  The block guarded by \<open>writeCursor > 0\<close>: the accumulated bytes are copied into a new
  buffer of exactly \<open>writeCursor\<close> bytes, which is unescaped; a message event is fired when
  the result is truthy.  \<open>SLIPMessage.unescape\<close> is a parameter here: \<open>None\<close> stands for
  its falsy result.  The list returned is the list of events fired.
\<close>

definition messageBuffer :: "closure \<Rightarrow> buffer" where
  "messageBuffer s =
     fst (copy (temporaryBuffer s) (allocUnsafe (writeCursor s)) 0 0 (writeCursor s))"

definition fireMessage :: "(buffer \<Rightarrow> buffer option) \<Rightarrow> closure \<Rightarrow> buffer list" where
  "fireMessage unescapeFn s =
     (if writeCursor s > 0
      then (case unescapeFn (messageBuffer s) of Some msg \<Rightarrow> [msg] | None \<Rightarrow> [])
      else [])"

text \<open>
  The handler itself.  Its arguments are the unescape function, the instance's end byte
  (\<open>this.endByte_\<close> holds exactly one byte), the closure state and the chunk; it returns the
  new closure state and the message events fired, in the order they were fired.  Each turn
  of the \<open>do ... while (true)\<close> loop is one call; the loop goes round again only with the
  slice behind the end byte, which is shorter than the chunk.
\<close>

function collectDataAndFireMessageEvent ::
  "(buffer \<Rightarrow> buffer option) \<Rightarrow> byte \<Rightarrow> closure \<Rightarrow> buffer \<Rightarrow> closure \<times> buffer list" where
  "collectDataAndFireMessageEvent unescapeFn endByte s data =
     (case indexOf data endByte of
        None \<Rightarrow> (pushData s data (length data), [])
      | Some endIndex \<Rightarrow>
          (let s1 = (if endIndex > 0 then pushData s data endIndex else s);
               fired = fireMessage unescapeFn s1;
               s2 = s1\<lparr>writeCursor := 0\<rparr>
           in if length data - 1 > endIndex
              then (let (s3, later) =
                          collectDataAndFireMessageEvent unescapeFn endByte s2
                            (slice data (endIndex + 1) (length data))
                    in (s3, fired @ later))
              else (s2, fired)))"
  by pat_completeness auto
termination
  by (relation "measure (\<lambda>(unescapeFn, endByte, s, data). length data)")
     (auto simp: slice_def)

text \<open>
  The \<open>data\<close> listener registered by the constructor calls the handler once for every
  chunk the port delivers, one after the other.
\<close>

fun feedChunks ::
  "(buffer \<Rightarrow> buffer option) \<Rightarrow> byte \<Rightarrow> closure \<Rightarrow> buffer list \<Rightarrow> closure \<times> buffer list" where
  "feedChunks unescapeFn endByte s [] = (s, [])"
| "feedChunks unescapeFn endByte s (data # chunks) =
     (let (s1, fired) = collectDataAndFireMessageEvent unescapeFn endByte s data;
          (s2, later) = feedChunks unescapeFn endByte s1 chunks
      in (s2, fired @ later))"

section \<open>Protocol definitions\<close>

text \<open>
  A protocol definition as \<open>defaultProtocolDefinition\<close> in the source spells it out:
  a maximal message length, the end byte, the escape byte and an ordered list of escape
  rules, each with an initial fragment and its replacement.
\<close>

record escapeRule =
  initialFragment :: byte
  replacement :: byte

record protocolDefinition =
  messageMaxLength :: nat
  endByte :: byte
  escapeByte :: byte
  escapeRules :: "escapeRule list"

definition defaultProtocolDefinition :: protocolDefinition where
  "defaultProtocolDefinition =
     \<lparr>messageMaxLength = 256, endByte = 192, escapeByte = 219,
      escapeRules = [\<lparr>initialFragment = 192, replacement = 220\<rparr>,
                     \<lparr>initialFragment = 219, replacement = 221\<rparr>]\<rparr>"

text \<open>
  The object a caller passes to the constructor is a plain JavaScript object: any property,
  also of a rule, may be left out.  \<open>None\<close> stands for a property that is not set.
\<close>

record ruleObject =
  initialFragmentOpt :: "byte option"
  replacementOpt :: "byte option"

record protocolObject =
  messageMaxLengthOpt :: "nat option"
  endByteOpt :: "byte option"
  escapeByteOpt :: "byte option"
  escapeRulesOpt :: "ruleObject list option"

text \<open>The object \<open>{}\<close> the constructor takes when no protocol is passed.\<close>

definition emptyObject :: protocolObject where
  "emptyObject = \<lparr>messageMaxLengthOpt = None, endByteOpt = None, escapeByteOpt = None,
                   escapeRulesOpt = None\<rparr>"

definition ruleObjectOf :: "escapeRule \<Rightarrow> ruleObject" where
  "ruleObjectOf r = \<lparr>initialFragmentOpt = Some (initialFragment r),
                     replacementOpt = Some (replacement r)\<rparr>"

text \<open>
  \<open>_.defaults(protocol, defaultProtocolDefinition)\<close>: every property of the object that
  is not set takes the value \<open>defaultProtocolDefinition\<close> has for it; a property that is
  set stays as it is.  The list of rules is one property: it is taken whole or kept whole.
\<close>

definition defaults :: "protocolObject \<Rightarrow> protocolObject" where
  "defaults protocol =
     \<lparr>messageMaxLengthOpt =
        (case messageMaxLengthOpt protocol of
           None \<Rightarrow> Some (messageMaxLength defaultProtocolDefinition) | Some v \<Rightarrow> Some v),
      endByteOpt =
        (case endByteOpt protocol of
           None \<Rightarrow> Some (endByte defaultProtocolDefinition) | Some v \<Rightarrow> Some v),
      escapeByteOpt =
        (case escapeByteOpt protocol of
           None \<Rightarrow> Some (escapeByte defaultProtocolDefinition) | Some v \<Rightarrow> Some v),
      escapeRulesOpt =
        (case escapeRulesOpt protocol of
           None \<Rightarrow> Some (map ruleObjectOf (escapeRules defaultProtocolDefinition))
         | Some v \<Rightarrow> Some v)\<rparr>"

section \<open>The codec and the protocol check\<close>

text \<open>
  Modelled from the spec: the frame encoder, \<open>new SLIPMessage(buffer)\<close> in the source,
  whose file \<open>slip-message.js\<close> is not among the sources.  A payload byte that is the
  initial fragment of a rule becomes the escape byte followed by that rule's replacement
  (the first such rule in the list); any other byte is emitted unchanged.  The encoder never
  emits the end byte by itself.
\<close>

definition encodeByte :: "protocolDefinition \<Rightarrow> byte \<Rightarrow> buffer" where
  "encodeByte p b =
     (case find (\<lambda>r. initialFragment r = b) (escapeRules p) of
        Some r \<Rightarrow> [escapeByte p, replacement r]
      | None \<Rightarrow> [b])"

text \<open>
  Modelled from the spec: the encoded payload is the bytes' encodings one after the other;
  its length is the payload's length plus one for every escaped byte.
\<close>

definition encode :: "protocolDefinition \<Rightarrow> buffer \<Rightarrow> buffer" where
  "encode p payload = concat (map (encodeByte p) payload)"

text \<open>
  Modelled from the spec: the frame decoder, \<open>SLIPMessage.unescape\<close> in the source, of
  the same missing file.  The frame is scanned byte by byte.  After an escape byte the next
  byte must be the replacement of a rule and the pair becomes that rule's initial fragment;
  an escape byte at the end of the frame, or followed by a byte that is no rule's
  replacement, makes the frame invalid (\<open>None\<close>, the falsy result).  Other bytes pass
  through unchanged.
\<close>

fun unescape :: "protocolDefinition \<Rightarrow> buffer \<Rightarrow> buffer option" where
  "unescape p [] = Some []"
| "unescape p [b] = (if b = escapeByte p then None else Some [b])"
| "unescape p (b # c # rest) =
     (if b = escapeByte p
      then (case find (\<lambda>r. replacement r = c) (escapeRules p) of
              None \<Rightarrow> None
            | Some r \<Rightarrow> map_option ((#) (initialFragment r)) (unescape p rest))
      else map_option ((#) b) (unescape p (c # rest)))"

text \<open>The error a protocol definition is refused with.\<close>

datatype error = ConfigError

text \<open>
  Modelled from the spec: the two faults of a protocol definition, for the check in the
  missing file \<open>slip-message.js\<close>.  A rule entry lacks a required field; or one byte
  value is used in two roles: the end byte is also the escape byte, or two rules have the
  same initial fragment.  The rules have to cover the end byte and the escape byte, as the
  default rules do, so an initial fragment that is the end byte or the escape byte is no
  collision.
\<close>

definition missingField :: "ruleObject \<Rightarrow> bool" where
  "missingField r = (initialFragmentOpt r = None \<or> replacementOpt r = None)"

definition collide :: "byte \<Rightarrow> byte \<Rightarrow> ruleObject list \<Rightarrow> bool" where
  "collide e x rules = (e = x \<or> \<not> distinct (map initialFragmentOpt rules))"

text \<open>The rule a rule object with both fields stands for.\<close>

definition ruleOf :: "ruleObject \<Rightarrow> escapeRule" where
  "ruleOf r = \<lparr>initialFragment = the (initialFragmentOpt r),
               replacement = the (replacementOpt r)\<rparr>"

text \<open>
  Modelled from the spec: the check of a protocol definition, \<open>SLIPMessage.applyProtocol\<close>
  in the source, of the same missing file.  It fails with \<open>ConfigError\<close> when the
  definition has one of the two faults; otherwise the definition is accepted as it stands.
  The constructor only calls it on an object that \<open>defaults\<close> has filled up, where the
  four properties are set; an object with one of them unset is refused as well.
\<close>

definition applyProtocol :: "protocolObject \<Rightarrow> error + protocolDefinition" where
  "applyProtocol protocol =
     (case (messageMaxLengthOpt protocol, endByteOpt protocol, escapeByteOpt protocol,
            escapeRulesOpt protocol) of
        (Some n, Some e, Some x, Some rules) \<Rightarrow>
          (if list_ex missingField rules \<or> collide e x rules then Inl ConfigError
           else Inr \<lparr>messageMaxLength = n, endByte = e, escapeByte = x,
                     escapeRules = map ruleOf rules\<rparr>)
      | _ \<Rightarrow> Inl ConfigError)"

section \<open>Construction and instances\<close>

text \<open>
  The fields the constructor sets on \<open>this\<close>: \<open>protocol_\<close> and \<open>endByte_\<close>, a buffer
  holding the one end byte.
\<close>

record slip =
  this_protocol :: protocolDefinition
  this_endByte :: byte

text \<open>
  What a call of the constructor leaves behind: whether the \<open>SerialPort\<close> constructor has
  run on \<open>this\<close>, the caller's protocol object as it is after the call (\<open>None\<close> when
  the caller passed none), and the outcome, the exception thrown or the instance with its
  fields set and its \<open>data\<close> listener registered.
\<close>

record construction =
  superConstructed :: bool
  suppliedObject :: "protocolObject option"
  outcome :: "error + slip"

text \<open>
  The constructor, in the order of its statements.  The \<open>SerialPort\<close> constructor is
  called on \<open>this\<close> first.  Then \<open>_.defaults\<close> fills the protocol object up in place: the
  caller's own object when one was passed, a fresh \<open>{}\<close> otherwise.  Then
  \<open>applyProtocol\<close> is called on the filled object; an exception thrown there leaves the
  constructor before \<open>protocol_\<close> and \<open>endByte_\<close> are set and before the listener is
  registered.
\<close>

definition SLIP :: "protocolObject option \<Rightarrow> construction" where
  "SLIP protocol =
     (let filled = defaults (case protocol of Some p \<Rightarrow> p | None \<Rightarrow> emptyObject)
      in \<lparr>superConstructed = True,
          suppliedObject = (case protocol of Some p \<Rightarrow> Some filled | None \<Rightarrow> None),
          outcome = (case applyProtocol filled of
                       Inl err \<Rightarrow> Inl err
                     | Inr d \<Rightarrow> Inr \<lparr>this_protocol = d, this_endByte = endByte d\<rparr>)\<rparr>)"

text \<open>
  The handler is one function object, stored on \<open>SLIP.prototype\<close>; the closure around it
  is created once, when the module is loaded.  Every instance's \<open>data\<close> listener calls that
  function with its own \<open>this\<close>: the end byte searched for and the emitter of the message
  event are the instance's, the buffer and the cursor are the closure's.  A running program
  is modelled by the closure state and the log of message events, each with the number of
  the instance that emitted it.
\<close>

record runtime =
  shared :: closure
  events :: "(nat \<times> buffer) list"

definition moduleLoaded :: runtime where
  "moduleLoaded = \<lparr>shared = initialClosure, events = []\<rparr>"

definition onData ::
  "(buffer \<Rightarrow> buffer option) \<Rightarrow> nat \<times> slip \<Rightarrow> buffer \<Rightarrow> runtime \<Rightarrow> runtime" where
  "onData unescapeFn this data rt =
     (let (s, fired) =
            collectDataAndFireMessageEvent unescapeFn (this_endByte (snd this)) (shared rt) data
      in \<lparr>shared = s, events = events rt @ map (Pair (fst this)) fired\<rparr>)"

text \<open>An instance holding the default protocol definition.\<close>

definition defaultInstance :: slip where
  "defaultInstance = \<lparr>this_protocol = defaultProtocolDefinition,
     this_endByte = endByte defaultProtocolDefinition\<rparr>"

section \<open>Notions for stating the properties\<close>

text \<open>
  The pending partial frame: the bytes of the accumulation buffer below the write cursor.
\<close>

definition pending :: "closure \<Rightarrow> buffer" where
  "pending s = take (writeCursor s) (temporaryBuffer s)"

text \<open>The closure keeps a buffer of the allocated size and a cursor inside it.\<close>

definition wellFormed :: "closure \<Rightarrow> bool" where
  "wellFormed s = (length (temporaryBuffer s) = capacity \<and> writeCursor s \<le> capacity)"

text \<open>
  A reference reading of a byte stream as terminator-delimited frames, byte by byte:
  \<open>terminated e cur xs\<close> lists, in arrival order, the frames closed by an occurrence of
  the end byte \<open>e\<close> in \<open>xs\<close>, the first one starting with the bytes \<open>cur\<close> received
  before; \<open>unterminated e cur xs\<close> is what follows the last end byte.
\<close>

fun terminated :: "byte \<Rightarrow> buffer \<Rightarrow> buffer \<Rightarrow> buffer list" where
  "terminated e cur [] = []"
| "terminated e cur (x # xs) =
     (if x = e then cur # terminated e [] xs else terminated e (cur @ [x]) xs)"

fun unterminated :: "byte \<Rightarrow> buffer \<Rightarrow> buffer \<Rightarrow> buffer" where
  "unterminated e cur [] = cur"
| "unterminated e cur (x # xs) =
     (if x = e then unterminated e [] xs else unterminated e (cur @ [x]) xs)"

text \<open>
  What one terminated frame gives rise to: nothing when it is empty, otherwise the decoding
  of its first \<open>capacity\<close> bytes when that succeeds.
\<close>

definition deliver :: "(buffer \<Rightarrow> buffer option) \<Rightarrow> buffer \<Rightarrow> buffer list" where
  "deliver unescapeFn frame =
     (if frame = [] then []
      else (case unescapeFn (take capacity frame) of Some msg \<Rightarrow> [msg] | None \<Rightarrow> []))"

text \<open>
  A protocol definition under which every payload can be framed and recovered: the rules
  cover the end byte and the escape byte, no two rules share a replacement, and neither the
  escape byte nor a replacement is the end byte.
\<close>

definition soundProtocol :: "protocolDefinition \<Rightarrow> bool" where
  "soundProtocol p =
     (distinct (map replacement (escapeRules p)) \<and>
      endByte p \<in> initialFragment ` set (escapeRules p) \<and>
      escapeByte p \<in> initialFragment ` set (escapeRules p) \<and>
      endByte p \<noteq> escapeByte p \<and>
      endByte p \<notin> replacement ` set (escapeRules p))"

section \<open>Buffer primitives: basic facts\<close>

lemma indexOf_None: "indexOf xs b = None \<longleftrightarrow> b \<notin> set xs"
  by (induction xs) auto

lemma indexOf_first: "b \<notin> set pre \<Longrightarrow> indexOf (pre @ b # rest) b = Some (length pre)"
  by (induction pre) auto

lemma pushData_Nil: "pushData s data 0 = s"
  by (simp add: pushData_def copy_def)

lemma pushData_prefix: "pushData s (pre @ rest) (length pre) = pushData s pre (length pre)"
  by (simp add: pushData_def copy_def Let_def min_def)

lemma pushData_full: "length (temporaryBuffer s) \<le> writeCursor s \<Longrightarrow> pushData s xs n = s"
  by (simp add: pushData_def copy_def)

lemma pushData_fits:
  "writeCursor s + length xs \<le> length (temporaryBuffer s) \<Longrightarrow>
   pushData s xs (length xs) =
     s\<lparr>temporaryBuffer := take (writeCursor s) (temporaryBuffer s) @ xs
          @ drop (writeCursor s + length xs) (temporaryBuffer s),
       writeCursor := writeCursor s + length xs\<rparr>"
proof (cases "xs = []")
  case True
  then show ?thesis by (simp add: pushData_Nil)
next
  case False
  assume "writeCursor s + length xs \<le> length (temporaryBuffer s)"
  moreover from False have "0 < length xs" by simp
  ultimately have "writeCursor s < length (temporaryBuffer s)" by linarith
  with \<open>0 < length xs\<close> \<open>writeCursor s + length xs \<le> length (temporaryBuffer s)\<close>
  show ?thesis by (simp add: pushData_def copy_def Let_def min_def)
qed

lemma pushData_over:
  "writeCursor s \<le> length (temporaryBuffer s) \<Longrightarrow> length (temporaryBuffer s) \<le> writeCursor s + length xs \<Longrightarrow>
   pushData s xs (length xs) =
     s\<lparr>temporaryBuffer := take (writeCursor s) (temporaryBuffer s)
          @ take (length (temporaryBuffer s) - writeCursor s) xs,
       writeCursor := length (temporaryBuffer s)\<rparr>"
  by (cases "xs = []") (auto simp add: pushData_def copy_def Let_def min_def)

lemma pushData_append:
  "pushData (pushData s xs (length xs)) ys (length ys) = pushData s (xs @ ys) (length xs + length ys)"
proof -
  let ?L = "length (temporaryBuffer s)" and ?w = "writeCursor s"
  consider (full) "?L \<le> ?w" | (over) "?w < ?L" "?L \<le> ?w + length xs"
    | (fits) "?w + length xs < ?L" by linarith
  then show ?thesis
  proof cases
    case full
    then show ?thesis by (simp add: pushData_full)
  next
    case over
    then have 1: "pushData s xs (length xs) = s\<lparr>temporaryBuffer := take ?w (temporaryBuffer s) @ take (?L - ?w) xs, writeCursor := ?L\<rparr>"
      by (simp add: pushData_over)
    have 2: "pushData s (xs @ ys) (length (xs @ ys)) = s\<lparr>temporaryBuffer := take ?w (temporaryBuffer s) @ take (?L - ?w) (xs @ ys), writeCursor := ?L\<rparr>"
      using over by (intro pushData_over) auto
    show ?thesis using over 2 by (simp add: 1 pushData_full)
  next
    case fits
    then have 1: "pushData s xs (length xs) = s\<lparr>temporaryBuffer := take ?w (temporaryBuffer s) @ xs @ drop (?w + length xs) (temporaryBuffer s), writeCursor := ?w + length xs\<rparr>"
      by (simp add: pushData_fits)
    let ?s1 = "pushData s xs (length xs)"
    have L1: "length (temporaryBuffer ?s1) = ?L" and w1: "writeCursor ?s1 = ?w + length xs"
      using fits by (simp_all add: 1)
    show ?thesis
    proof (cases "?w + length xs + length ys \<le> ?L")
      case True
      have "pushData ?s1 ys (length ys) = ?s1\<lparr>temporaryBuffer := take (writeCursor ?s1) (temporaryBuffer ?s1) @ ys
          @ drop (writeCursor ?s1 + length ys) (temporaryBuffer ?s1),
          writeCursor := writeCursor ?s1 + length ys\<rparr>"
        using True by (intro pushData_fits) (simp add: L1 w1)
      moreover have "pushData s (xs @ ys) (length (xs @ ys)) = s\<lparr>temporaryBuffer := take ?w (temporaryBuffer s) @ (xs @ ys)
          @ drop (?w + length (xs @ ys)) (temporaryBuffer s), writeCursor := ?w + length (xs @ ys)\<rparr>"
        using True by (intro pushData_fits) simp
      ultimately show ?thesis using fits True by (simp add: 1 ac_simps)
    next
      case False
      have "pushData ?s1 ys (length ys) = ?s1\<lparr>temporaryBuffer := take (writeCursor ?s1) (temporaryBuffer ?s1)
          @ take (length (temporaryBuffer ?s1) - writeCursor ?s1) ys,
          writeCursor := length (temporaryBuffer ?s1)\<rparr>"
        using False fits by (intro pushData_over) (simp_all add: L1 w1)
      moreover have "pushData s (xs @ ys) (length (xs @ ys)) = s\<lparr>temporaryBuffer := take ?w (temporaryBuffer s)
          @ take (?L - ?w) (xs @ ys), writeCursor := ?L\<rparr>"
        using False fits by (intro pushData_over) simp_all
      ultimately show ?thesis using fits False by (simp add: 1)
    qed
  qed
qed

section \<open>One turn of the loop\<close>

declare collectDataAndFireMessageEvent.simps [simp del]

lemma collect_no_end:
  "e \<notin> set data \<Longrightarrow>
   collectDataAndFireMessageEvent u e s data = (pushData s data (length data), [])"
proof -
  assume "e \<notin> set data"
  then have "indexOf data e = None" by (simp add: indexOf_None)
  then show ?thesis by (simp add: collectDataAndFireMessageEvent.simps [of u e s data])
qed

lemma collect_Nil: "collectDataAndFireMessageEvent u e s [] = (s, [])"
  by (simp add: collect_no_end pushData_Nil)

lemma collect_end:
  assumes "e \<notin> set pre"
  shows "collectDataAndFireMessageEvent u e s (pre @ e # rest) =
     (let s1 = pushData s pre (length pre);
          (s3, later) = collectDataAndFireMessageEvent u e (s1\<lparr>writeCursor := 0\<rparr>) rest
      in (s3, fireMessage u s1 @ later))"
proof -
  have idx: "indexOf (pre @ e # rest) e = Some (length pre)"
    by (rule indexOf_first [OF assms])
  have s1: "(if 0 < length pre then pushData s (pre @ e # rest) (length pre) else s)
             = pushData s pre (length pre)"
    by (simp add: pushData_prefix pushData_Nil)
  have unf: "collectDataAndFireMessageEvent u e s (pre @ e # rest) =
          (let s1 = pushData s pre (length pre);
               fired = fireMessage u s1;
               s2 = s1\<lparr>writeCursor := 0\<rparr>
           in if length (pre @ e # rest) - 1 > length pre
              then (let (s3, later) =
                          collectDataAndFireMessageEvent u e s2
                            (slice (pre @ e # rest) (length pre + 1) (length (pre @ e # rest)))
                    in (s3, fired @ later))
              else (s2, fired))"
    unfolding collectDataAndFireMessageEvent.simps [of u e s "pre @ e # rest"] idx option.case s1 ..
  have sl: "slice (pre @ e # rest) (length pre + 1) (length (pre @ e # rest)) = rest"
    by (simp add: slice_def)
  show ?thesis
  proof (cases "rest = []")
    case True
    then show ?thesis
      unfolding unf by (simp add: collect_Nil Let_def)
  next
    case False
    then have "length pre < length (pre @ e # rest) - 1" by (cases rest) auto
    then show ?thesis
      unfolding unf sl by (simp add: Let_def)
  qed
qed

section \<open>The copy keeps the buffer's length\<close>

lemma copy_length: "length (fst (copy src tgt ts ss se)) = length tgt"
  by (auto simp: copy_def Let_def min_def)

lemma copy_count: "snd (copy src tgt ts ss se) \<le> length tgt - ts"
  by (auto simp: copy_def Let_def)

lemma pushData_length: "length (temporaryBuffer (pushData s data n)) = length (temporaryBuffer s)"
  using copy_length [of data "temporaryBuffer s" "writeCursor s" 0 n]
  by (simp add: pushData_def case_prod_beta)

lemma pushData_cursor_le:
  "writeCursor s \<le> length (temporaryBuffer s) \<Longrightarrow>
   writeCursor (pushData s data n) \<le> length (temporaryBuffer s)"
  using copy_count [of data "temporaryBuffer s" "writeCursor s" 0 n]
  by (simp add: pushData_def case_prod_beta)

lemma pushData_cursor:
  "writeCursor s \<le> length (temporaryBuffer s) \<Longrightarrow>
   writeCursor (pushData s data (length data)) = min (writeCursor s + length data) (length (temporaryBuffer s))"
  by (cases "data = []") (auto simp: pushData_def copy_def Let_def)

section \<open>Chunk boundaries\<close>

lemma collect_append:
  "collectDataAndFireMessageEvent u e s (a @ b) =
     (let (s1, m1) = collectDataAndFireMessageEvent u e s a;
          (s2, m2) = collectDataAndFireMessageEvent u e s1 b
      in (s2, m1 @ m2))"
proof (induction a arbitrary: s rule: length_induct)
  case (1 a)
  show ?case
  proof (cases "e \<in> set a")
    case True
    then obtain pre rest where a: "a = pre @ e # rest" and pre: "e \<notin> set pre"
      by (meson split_list_first)
    have "length rest < length a" using a by simp
    with 1 have IH: "\<And>s. collectDataAndFireMessageEvent u e s (rest @ b) =
     (let (s1, m1) = collectDataAndFireMessageEvent u e s rest;
          (s2, m2) = collectDataAndFireMessageEvent u e s1 b
      in (s2, m1 @ m2))" by blast
    have ab: "a @ b = pre @ e # (rest @ b)" using a by simp
    show ?thesis
      unfolding ab collect_end [OF pre] IH unfolding a collect_end [OF pre]
      by (simp add: Let_def split: prod.splits)
  next
    case False
    note a = this
    show ?thesis
    proof (cases "e \<in> set b")
      case True
      then obtain pre rest where b: "b = pre @ e # rest" and pre: "e \<notin> set pre"
        by (meson split_list_first)
      have ab: "a @ b = (a @ pre) @ e # rest" using b by simp
      have ap: "e \<notin> set (a @ pre)" using a pre by simp
      show ?thesis unfolding ab collect_end [OF ap] unfolding b collect_end [OF pre]
        by (simp add: collect_no_end [OF a] pushData_append)
    next
      case False
      with a have "e \<notin> set (a @ b)" by simp
      then show ?thesis
        by (simp add: collect_no_end a False pushData_append)
    qed
  qed
qed

lemma feedChunks_concat:
  "feedChunks u e s chunks = collectDataAndFireMessageEvent u e s (concat chunks)"
proof (induction chunks arbitrary: s)
  case Nil
  show ?case by (simp add: collect_Nil)
next
  case (Cons c cs)
  show ?case
    by (simp add: collect_append [of u e s c "concat cs"] Cons.IH)
qed

lemma collect_ends_reset:
  "writeCursor (fst (collectDataAndFireMessageEvent u e s (xs @ [e]))) = 0"
proof -
  have "collectDataAndFireMessageEvent u e s' [e] = (s'\<lparr>writeCursor := 0\<rparr>, fireMessage u s')" for s'
    using collect_end [of e "[]" u s' "[]"] by (simp add: pushData_Nil collect_Nil)
  then show ?thesis
    by (simp add: collect_append [of u e s xs "[e]"] case_prod_beta Let_def)
qed

text \<open>
  Claim C1: a chunk cut in two at any offset \<open>k\<close> and handed to the handler in two calls
  leaves the same closure state and fires the same message events, in the same order, as the
  uncut chunk handed over in one call.  This holds for every byte sequence, so in particular
  for an encoded frame followed by its end byte, and for every unescape function.
\<close>

theorem chunk_boundary_independence:
  "feedChunks u e s [take k data, drop k data] = collectDataAndFireMessageEvent u e s data"
  using collect_append [of u e s "take k data" "drop k data"]
  by (simp add: Let_def split: prod.splits)

section \<open>The closure invariant\<close>

lemma wellFormed_initial: "wellFormed initialClosure"
  by (simp add: wellFormed_def initialClosure_def allocUnsafe_def)

lemma wellFormed_pushData: "wellFormed s \<Longrightarrow> wellFormed (pushData s data n)"
  using pushData_cursor_le [of s data n] by (simp add: wellFormed_def pushData_length)

lemma wellFormed_reset: "wellFormed s \<Longrightarrow> wellFormed (s\<lparr>writeCursor := 0\<rparr>)"
  by (simp add: wellFormed_def)

lemma wellFormed_collect:
  "wellFormed s \<Longrightarrow> wellFormed (fst (collectDataAndFireMessageEvent u e s data))"
proof (induction data arbitrary: s rule: length_induct)
  case (1 data)
  show ?case
  proof (cases "e \<in> set data")
    case True
    then obtain pre rest where d: "data = pre @ e # rest" and pre: "e \<notin> set pre"
      by (meson split_list_first)
    have "length rest < length data" using d by simp
    with 1 have "wellFormed (fst (collectDataAndFireMessageEvent u e
        ((pushData s pre (length pre))\<lparr>writeCursor := 0\<rparr>) rest))"
      by (simp add: wellFormed_pushData wellFormed_reset)
    then show ?thesis
      unfolding d collect_end [OF pre] by (simp add: Let_def case_prod_beta)
  next
    case False
    with 1 show ?thesis by (simp add: collect_no_end wellFormed_pushData)
  qed
qed

lemma wellFormed_feedChunks:
  "wellFormed s \<Longrightarrow> wellFormed (fst (feedChunks u e s chunks))"
proof (induction chunks arbitrary: s)
  case Nil
  then show ?case by simp
next
  case (Cons c cs)
  from Cons.prems have "wellFormed (fst (collectDataAndFireMessageEvent u e s c))"
    by (rule wellFormed_collect)
  from Cons.IH [OF this] show ?case
    by (simp add: Let_def case_prod_beta)
qed

lemma pending_pushData:
  assumes "wellFormed s"
  shows "pending (pushData s data (length data)) = take capacity (pending s @ data)"
proof (cases "writeCursor s + length data \<le> capacity")
  case True
  with assms show ?thesis
    by (simp add: pushData_fits wellFormed_def pending_def)
next
  case False
  with assms show ?thesis
    by (simp add: pushData_over wellFormed_def pending_def)
qed

lemma messageBuffer_pending:
  "writeCursor s \<le> length (temporaryBuffer s) \<Longrightarrow> messageBuffer s = pending s"
  by (simp add: messageBuffer_def pending_def copy_def allocUnsafe_def Let_def)

lemma pending_reset: "pending (s\<lparr>writeCursor := 0\<rparr>) = []"
  by (simp add: pending_def)

lemma length_pending: "wellFormed s \<Longrightarrow> length (pending s) = writeCursor s"
  by (simp add: pending_def wellFormed_def)

lemma pending_cursor_0: "writeCursor s = 0 \<Longrightarrow> pending s = []"
  by (simp add: pending_def)

text \<open>
  Claim C10: whatever chunks the handler has been fed since the module was loaded, the write
  cursor is at most 10240 and the accumulation buffer still has 10240 bytes.  Pushing a
  further fragment moves the cursor to the smaller of the cursor plus the fragment's length
  and 10240: the copy stops at the end of the buffer, the cursor advances by the bytes
  copied, and the pending bytes are the old ones followed by the fragment, cut at 10240.
\<close>

theorem write_cursor_bounded:
  "writeCursor (fst (feedChunks u e initialClosure chunks)) \<le> 10240 \<and>
   length (temporaryBuffer (fst (feedChunks u e initialClosure chunks))) = 10240 \<and>
   writeCursor (pushData (fst (feedChunks u e initialClosure chunks)) data (length data))
     = min (writeCursor (fst (feedChunks u e initialClosure chunks)) + length data) 10240 \<and>
   pending (pushData (fst (feedChunks u e initialClosure chunks)) data (length data))
     = take 10240 (pending (fst (feedChunks u e initialClosure chunks)) @ data) \<and>
   length (temporaryBuffer (pushData (fst (feedChunks u e initialClosure chunks)) data n)) = 10240"
proof -
  let ?s = "fst (feedChunks u e initialClosure chunks)"
  have wf: "wellFormed ?s" using wellFormed_initial by (rule wellFormed_feedChunks)
  have c: "capacity = 10240" by (simp add: capacity_def)
  from wf have 1: "writeCursor ?s \<le> 10240" "length (temporaryBuffer ?s) = 10240"
    by (simp_all add: wellFormed_def c)
  have 2: "writeCursor (pushData ?s data (length data)) = min (writeCursor ?s + length data) 10240"
    using pushData_cursor [of ?s data] 1 by simp
  have 3: "pending (pushData ?s data (length data)) = take 10240 (pending ?s @ data)"
    using pending_pushData [OF wf, of data] by (simp add: c)
  have 4: "length (temporaryBuffer (pushData ?s data n)) = 10240"
    by (simp add: pushData_length 1)
  from 1 2 3 4 show ?thesis by blast
qed

text \<open>
  Claim C6, as amended: for a chunk without the end byte the handler fires no message,
  copies the first \<open>capacity - writeCursor\<close> bytes of the chunk to the accumulation
  buffer at the write cursor and moves the cursor to the smaller of the cursor plus the
  chunk's length and the capacity.  When the chunk fits into the rest of the buffer this is
  the whole chunk and the cursor advances by its length.
\<close>

theorem no_terminator_chunk_buffered:
  assumes "e \<notin> set data" and "wellFormed s"
  shows "collectDataAndFireMessageEvent u e s data =
           (s\<lparr>temporaryBuffer :=
                 take (writeCursor s) (temporaryBuffer s)
                   @ take (capacity - writeCursor s) data
                   @ drop (writeCursor s + length data) (temporaryBuffer s),
               writeCursor := min (writeCursor s + length data) capacity\<rparr>, [])
         \<and> pending (fst (collectDataAndFireMessageEvent u e s data))
             = take capacity (pending s @ data)"
proof -
  have "pushData s data (length data) =
           s\<lparr>temporaryBuffer :=
                 take (writeCursor s) (temporaryBuffer s)
                   @ take (capacity - writeCursor s) data
                   @ drop (writeCursor s + length data) (temporaryBuffer s),
               writeCursor := min (writeCursor s + length data) capacity\<rparr>"
  proof (cases "writeCursor s + length data \<le> capacity")
    case True
    with assms(2) show ?thesis by (simp add: pushData_fits wellFormed_def)
  next
    case False
    with assms(2) show ?thesis by (simp add: pushData_over wellFormed_def)
  qed
  moreover have "pending (pushData s data (length data)) = take capacity (pending s @ data)"
    using assms(2) by (rule pending_pushData)
  ultimately show ?thesis
    unfolding collect_no_end [OF assms(1)] by (simp only: fst_conv)
qed

text \<open>A chunk of three bytes fed to the freshly loaded module is buffered whole.\<close>

theorem no_terminator_chunk_buffered_witness:
  "(192 :: byte) \<notin> set [1, 2, 3] \<and> wellFormed initialClosure
   \<and> snd (collectDataAndFireMessageEvent Some 192 initialClosure [1, 2, 3]) = []
   \<and> writeCursor (fst (collectDataAndFireMessageEvent Some 192 initialClosure [1, 2, 3])) = 3
   \<and> pending (fst (collectDataAndFireMessageEvent Some 192 initialClosure [1, 2, 3])) = [1, 2, 3]"
proof -
  have 1: "(192 :: byte) \<notin> set [1, 2, 3]" by simp
  have p: "pending initialClosure = []" "writeCursor initialClosure = 0"
    by (simp_all add: pending_def initialClosure_def)
  from no_terminator_chunk_buffered [OF 1 wellFormed_initial, of Some] 1 wellFormed_initial
  show ?thesis by (simp add: p capacity_def pending_def)
qed

text \<open>
  Claim C6 as stated fails for a chunk longer than the room left: of 10241 bytes without an
  end byte fed to the freshly loaded module only 10240 are buffered, and the cursor
  advances by 10240, not by the chunk's length.
\<close>

theorem oversized_chunk_counterexample:
  "(192 :: byte) \<notin> set (replicate 10241 1)
   \<and> length (replicate 10241 (1 :: byte)) = 10241
   \<and> writeCursor initialClosure = 0
   \<and> writeCursor (fst (collectDataAndFireMessageEvent Some 192 initialClosure (replicate 10241 1)))
       = 10240"
proof -
  have 1: "(192 :: byte) \<notin> set (replicate 10241 1)" by simp
  have 3: "writeCursor initialClosure = 0" by (simp add: initialClosure_def)
  have "writeCursor (pushData initialClosure (replicate 10241 1) (length (replicate 10241 (1 :: byte))))
     = min (writeCursor initialClosure + length (replicate 10241 (1 :: byte)))
           (length (temporaryBuffer initialClosure))"
    by (rule pushData_cursor) (simp add: initialClosure_def)
  then have 4: "writeCursor (fst (collectDataAndFireMessageEvent Some 192 initialClosure
                   (replicate 10241 1))) = 10240"
    unfolding collect_no_end [OF 1]
    by (simp add: initialClosure_def allocUnsafe_def capacity_def)
  from 1 3 4 show ?thesis by simp
qed

section \<open>Frames and messages\<close>

lemma terminated_no_end: "e \<notin> set xs \<Longrightarrow> terminated e cur xs = []"
  by (induction xs arbitrary: cur) auto

lemma terminated_end:
  "e \<notin> set pre \<Longrightarrow> terminated e cur (pre @ e # rest) = (cur @ pre) # terminated e [] rest"
  by (induction pre arbitrary: cur) auto

lemma unterminated_no_end: "e \<notin> set xs \<Longrightarrow> unterminated e cur xs = cur @ xs"
  by (induction xs arbitrary: cur) auto

lemma unterminated_end:
  "e \<notin> set pre \<Longrightarrow> unterminated e cur (pre @ e # rest) = unterminated e [] rest"
  by (induction pre arbitrary: cur) auto

lemma length_terminated: "length (terminated e cur xs) = count_list xs e"
  by (induction xs arbitrary: cur) auto

lemma length_deliver: "length (deliver u f) \<le> 1"
  by (simp add: deliver_def split: option.splits)

lemma length_concat_deliver: "length (concat (map (deliver u) fs)) \<le> length fs"
proof (induction fs)
  case Nil
  then show ?case by simp
next
  case (Cons f fs)
  then show ?case using length_deliver [of u f] by simp
qed

lemma fireMessage_deliver:
  assumes "wellFormed s"
  shows "fireMessage u (pushData s pre (length pre)) = deliver u (pending s @ pre)"
proof -
  let ?s1 = "pushData s pre (length pre)"
  have wf1: "wellFormed ?s1" using assms by (rule wellFormed_pushData)
  have p1: "pending ?s1 = take capacity (pending s @ pre)"
    using assms by (rule pending_pushData)
  have mb: "messageBuffer ?s1 = pending ?s1"
    using wf1 by (intro messageBuffer_pending) (simp add: wellFormed_def)
  have "0 < capacity" by (simp add: capacity_def)
  then have e: "(take capacity (pending s @ pre) = []) = (pending s @ pre = [])"
    by (metis take_eq_Nil not_less_zero)
  have "(0 < writeCursor ?s1) = (pending ?s1 \<noteq> [])"
    using length_pending [OF wf1] by (metis length_greater_0_conv)
  then show ?thesis
    unfolding fireMessage_def deliver_def mb p1 e by simp
qed

lemma collect_refines:
  "wellFormed s \<Longrightarrow>
   snd (collectDataAndFireMessageEvent u e s data)
     = concat (map (deliver u) (terminated e (pending s) data)) \<and>
   pending (fst (collectDataAndFireMessageEvent u e s data))
     = take capacity (unterminated e (pending s) data)"
proof (induction data arbitrary: s rule: length_induct)
  case (1 data)
  note wf = \<open>wellFormed s\<close>
  have pw: "take capacity (pending s) = pending s"
    using length_pending [OF wf] wf by (simp add: wellFormed_def)
  show ?case
  proof (cases "e \<in> set data")
    case True
    then obtain pre rest where d: "data = pre @ e # rest" and pre: "e \<notin> set pre"
      by (meson split_list_first)
    let ?s2 = "(pushData s pre (length pre))\<lparr>writeCursor := 0\<rparr>"
    have wf2: "wellFormed ?s2" using wf by (simp add: wellFormed_pushData wellFormed_reset)
    have "length rest < length data" using d by simp
    with 1 wf2 have IH: "snd (collectDataAndFireMessageEvent u e ?s2 rest)
         = concat (map (deliver u) (terminated e (pending ?s2) rest)) \<and>
       pending (fst (collectDataAndFireMessageEvent u e ?s2 rest))
         = take capacity (unterminated e (pending ?s2) rest)" by blast
    show ?thesis
      unfolding d collect_end [OF pre] terminated_end [OF pre] unterminated_end [OF pre]
      using IH by (simp add: Let_def case_prod_beta pending_reset fireMessage_deliver [OF wf])
  next
    case False
    then show ?thesis
      by (simp add: collect_no_end terminated_no_end unterminated_no_end pending_pushData [OF wf])
  qed
qed

text \<open>
  Claim C7: the messages fired over any sequence of chunks are exactly the decodings of the
  frames closed by an end byte in the stream received, one per non-empty frame whose
  decoding succeeds, in the order in which the end bytes arrived; there is one such frame
  per end byte received, so never more messages than end bytes; and the one pending partial
  frame is what has arrived since the last end byte (cut at the capacity), for which
  nothing has been fired.
\<close>

theorem messages_follow_terminators:
  assumes "wellFormed s"
  shows "snd (feedChunks u e s chunks)
           = concat (map (deliver u) (terminated e (pending s) (concat chunks)))
       \<and> length (terminated e (pending s) (concat chunks)) = count_list (concat chunks) e
       \<and> length (snd (feedChunks u e s chunks)) \<le> count_list (concat chunks) e
       \<and> pending (fst (feedChunks u e s chunks))
           = take capacity (unterminated e (pending s) (concat chunks))"
proof -
  note r = collect_refines [OF assms, of u e "concat chunks"]
  have 1: "snd (feedChunks u e s chunks)
           = concat (map (deliver u) (terminated e (pending s) (concat chunks)))"
    using r by (simp add: feedChunks_concat)
  have 2: "length (terminated e (pending s) (concat chunks)) = count_list (concat chunks) e"
    by (rule length_terminated)
  have 3: "length (snd (feedChunks u e s chunks)) \<le> count_list (concat chunks) e"
    unfolding 1 using length_concat_deliver [of u "terminated e (pending s) (concat chunks)"]
    by (simp add: 2)
  have 4: "pending (fst (feedChunks u e s chunks))
           = take capacity (unterminated e (pending s) (concat chunks))"
    using r by (simp add: feedChunks_concat)
  from 1 2 3 4 show ?thesis by blast
qed

text \<open>
  Two chunks with one end byte: one message, made of the bytes before it from both chunks;
  the byte behind it stays pending.
\<close>

theorem messages_follow_terminators_witness:
  "wellFormed initialClosure
   \<and> snd (feedChunks Some 192 initialClosure [[1], [2, 192, 3]]) = [[1, 2]]
   \<and> count_list (concat [[1], [2, 192, 3 :: byte]]) 192 = 1
   \<and> pending (fst (feedChunks Some 192 initialClosure [[1], [2, 192, 3]])) = [3]"
proof -
  have p: "pending initialClosure = []" by (simp add: pending_def initialClosure_def)
  show ?thesis
    using messages_follow_terminators [OF wellFormed_initial, of Some 192 "[[1], [2, 192, 3]]"]
    by (simp add: p wellFormed_initial deliver_def capacity_def)
qed

text \<open>
  Claim C4: the empty frame between two consecutive end bytes fires nothing.  Whatever came
  before, the second of two consecutive end bytes adds no message to those fired up to the
  first; fed with no partial frame pending, in particular to the freshly loaded module, two
  end bytes fire no message at all.  After a chunk that ends with the end byte the write
  cursor is 0, whether or not a message was fired.
\<close>

theorem empty_frame_suppressed:
  "snd (collectDataAndFireMessageEvent u e s (xs @ [e, e]))
     = snd (collectDataAndFireMessageEvent u e s (xs @ [e])) \<and>
   writeCursor (fst (collectDataAndFireMessageEvent u e s (xs @ [e]))) = 0 \<and>
   collectDataAndFireMessageEvent u e (s\<lparr>writeCursor := 0\<rparr>) [e, e] = (s\<lparr>writeCursor := 0\<rparr>, []) \<and>
   collectDataAndFireMessageEvent u e initialClosure [e, e] = (initialClosure, [])"
proof -
  have one: "\<And>s. collectDataAndFireMessageEvent u e s [e]
               = (s\<lparr>writeCursor := 0\<rparr>, fireMessage u s)"
    using collect_end [of e "[]" u _ "[]"] by (simp add: pushData_Nil collect_Nil)
  have cur: "\<And>s xs. writeCursor (fst (collectDataAndFireMessageEvent u e s (xs @ [e]))) = 0"
    by (simp add: collect_append [of u e _ _ "[e]"] one case_prod_beta Let_def)
  have zero: "\<And>s. writeCursor s = 0 \<Longrightarrow> collectDataAndFireMessageEvent u e s [e] = (s, [])"
    by (simp add: one fireMessage_def)
  have "snd (collectDataAndFireMessageEvent u e s ((xs @ [e]) @ [e]))
     = snd (collectDataAndFireMessageEvent u e s (xs @ [e]))"
    unfolding collect_append [of u e s "xs @ [e]" "[e]"]
    by (simp add: zero [OF cur [of s xs]] case_prod_beta Let_def)
  then have a: "snd (collectDataAndFireMessageEvent u e s (xs @ [e, e]))
     = snd (collectDataAndFireMessageEvent u e s (xs @ [e]))"
    by simp
  have two: "\<And>s. writeCursor s = 0 \<Longrightarrow> collectDataAndFireMessageEvent u e s [e, e] = (s, [])"
    using collect_append [of u e _ "[e]" "[e]"] by (simp add: zero)
  have b: "collectDataAndFireMessageEvent u e (s\<lparr>writeCursor := 0\<rparr>) [e, e] = (s\<lparr>writeCursor := 0\<rparr>, [])"
    by (rule two) simp
  have c: "collectDataAndFireMessageEvent u e initialClosure [e, e] = (initialClosure, [])"
    by (rule two) (simp add: initialClosure_def)
  from a cur b c show ?thesis by blast
qed

section \<open>Encoding and decoding\<close>

lemma find_replacement:
  "distinct (map replacement rules) \<Longrightarrow> r \<in> set rules \<Longrightarrow>
   find (\<lambda>r'. replacement r' = replacement r) rules = Some r"
  by (induction rules) (auto simp: rev_image_eqI)

lemma find_fragment_None:
  "find (\<lambda>r. initialFragment r = b) rules = None \<longleftrightarrow> b \<notin> initialFragment ` set rules"
  by (auto simp: find_None_iff)

lemma unescape_plain:
  "b \<noteq> escapeByte p \<Longrightarrow> unescape p (b # rest) = map_option ((#) b) (unescape p rest)"
  by (cases rest) auto

lemma unescape_encodeByte:
  assumes "distinct (map replacement (escapeRules p))"
    and "b \<noteq> escapeByte p \<or> escapeByte p \<in> initialFragment ` set (escapeRules p)"
  shows "unescape p (encodeByte p b @ rest) = map_option ((#) b) (unescape p rest)"
proof (cases "find (\<lambda>r. initialFragment r = b) (escapeRules p)")
  case None
  then have "b \<notin> initialFragment ` set (escapeRules p)" by (simp add: find_fragment_None)
  with assms(2) have "b \<noteq> escapeByte p" by auto
  with None show ?thesis by (simp add: encodeByte_def unescape_plain)
next
  case (Some r)
  then have r: "r \<in> set (escapeRules p)" "initialFragment r = b"
    by (auto simp: find_Some_iff in_set_conv_nth)
  from find_replacement [OF assms(1) r(1)] Some r(2) show ?thesis
    by (simp add: encodeByte_def)
qed

lemma unescape_encode_append:
  assumes "distinct (map replacement (escapeRules p))"
  shows "(\<forall>b \<in> set payload. b \<noteq> escapeByte p \<or> escapeByte p \<in> initialFragment ` set (escapeRules p)) \<Longrightarrow>
         unescape p (encode p payload @ rest) = map_option ((@) payload) (unescape p rest)"
proof (induction payload)
  case Nil
  show ?case by (simp add: encode_def option.map_ident)
next
  case (Cons b bs)
  then have b: "b \<noteq> escapeByte p \<or> escapeByte p \<in> initialFragment ` set (escapeRules p)"
    and IH: "unescape p (encode p bs @ rest) = map_option ((@) bs) (unescape p rest)" by auto
  have "encode p (b # bs) @ rest = encodeByte p b @ (encode p bs @ rest)"
    by (simp add: encode_def)
  then show ?case
    by (simp add: unescape_encodeByte [OF assms b] IH option.map_comp comp_def)
qed

lemma unescape_encode:
  "soundProtocol p \<Longrightarrow> unescape p (encode p payload) = Some payload"
  using unescape_encode_append [of p payload "[]"] by (simp add: soundProtocol_def)

lemma unescape_no_escape: "escapeByte p \<notin> set xs \<Longrightarrow> unescape p xs = Some xs"
  by (induction xs) (auto simp: unescape_plain)

lemma unescape_plain_append:
  "escapeByte p \<notin> set xs \<Longrightarrow>
   unescape p (xs @ rest) = map_option ((@) xs) (unescape p rest)"
proof (induction xs)
  case Nil
  show ?case by (cases "unescape p rest") simp_all
next
  case (Cons a xs)
  then have a: "a \<noteq> escapeByte p" by auto
  from Cons show ?case by (cases "unescape p rest") (simp_all add: unescape_plain [OF a])
qed

lemma encodeByte_no_end: "soundProtocol p \<Longrightarrow> endByte p \<notin> set (encodeByte p b)"
proof -
  assume s: "soundProtocol p"
  show ?thesis
  proof (cases "find (\<lambda>r. initialFragment r = b) (escapeRules p)")
    case None
    then have "b \<notin> initialFragment ` set (escapeRules p)" by (simp add: find_fragment_None)
    with s have "b \<noteq> endByte p" by (auto simp: soundProtocol_def)
    with None show ?thesis by (simp add: encodeByte_def)
  next
    case (Some r)
    then have "r \<in> set (escapeRules p)" by (auto simp: find_Some_iff in_set_conv_nth)
    then have "replacement r \<in> replacement ` set (escapeRules p)" by (rule imageI)
    with s have "replacement r \<noteq> endByte p" "escapeByte p \<noteq> endByte p"
      unfolding soundProtocol_def by metis+
    with Some show ?thesis by (simp add: encodeByte_def)
  qed
qed

lemma encode_no_end: "soundProtocol p \<Longrightarrow> endByte p \<notin> set (encode p payload)"
  by (induction payload) (auto simp: encode_def dest: encodeByte_no_end)

lemma encodeByte_not_Nil: "encodeByte p b \<noteq> []"
  by (simp add: encodeByte_def split: option.splits)

lemma encode_not_Nil: "payload \<noteq> [] \<Longrightarrow> encode p payload \<noteq> []"
  by (cases payload) (simp_all add: encode_def encodeByte_not_Nil)

lemma soundProtocol_default: "soundProtocol defaultProtocolDefinition"
  by (simp add: soundProtocol_def defaultProtocolDefinition_def)

lemma unescape_escape_last:
  "soundProtocol p \<Longrightarrow> unescape p (encode p pre @ [escapeByte p]) = None"
  using unescape_encode_append [of p pre "[escapeByte p]"] by (simp add: soundProtocol_def)

lemma unescape_bad_replacement:
  assumes "soundProtocol p" and "c \<notin> replacement ` set (escapeRules p)"
  shows "unescape p (encode p pre @ escapeByte p # c # rest) = None"
proof -
  from assms(2) have "find (\<lambda>r. replacement r = c) (escapeRules p) = None"
    by (auto simp: find_None_iff)
  then have "unescape p (escapeByte p # c # rest) = None" by simp
  with assms(1) unescape_encode_append [of p pre "escapeByte p # c # rest"]
  show ?thesis by (simp add: soundProtocol_def)
qed

text \<open>
  Claim C3, as amended: under a protocol definition whose rules have pairwise distinct
  replacements, decoding the encoding of a payload that contains neither the end byte nor
  the escape byte yields that payload.
\<close>

theorem round_trip_plain_payload:
  assumes "distinct (map replacement (escapeRules p))"
    and "endByte p \<notin> set payload" and "escapeByte p \<notin> set payload"
  shows "unescape p (encode p payload) = Some payload"
  using unescape_encode_append [OF assms(1), of payload "[]"] assms(3) by simp

text \<open>The default protocol definition and the payload 1, 2, 3.\<close>

theorem round_trip_plain_payload_witness:
  "distinct (map replacement (escapeRules defaultProtocolDefinition))
   \<and> endByte defaultProtocolDefinition \<notin> set [1, 2, 3]
   \<and> escapeByte defaultProtocolDefinition \<notin> set [1, 2, 3]
   \<and> unescape defaultProtocolDefinition (encode defaultProtocolDefinition [1, 2, 3]) = Some [1, 2, 3]"
proof -
  have 1: "distinct (map replacement (escapeRules defaultProtocolDefinition))"
    and 2: "endByte defaultProtocolDefinition \<notin> set [1, 2, 3]"
    and 3: "escapeByte defaultProtocolDefinition \<notin> set [1, 2, 3]"
    by (simp_all add: defaultProtocolDefinition_def)
  from 1 2 3 round_trip_plain_payload [OF 1 2 3] show ?thesis by blast
qed

text \<open>
  Claim C3 as stated fails when two rules share a replacement: with the rules 1 to 3 and
  2 to 3 the payload 1, 2, which contains neither the end byte nor the escape byte, is
  encoded as 219, 3, 219, 3 and decoded as 1, 1.
\<close>

theorem round_trip_counterexample:
  "endByte \<lparr>messageMaxLength = 256, endByte = 192, escapeByte = 219,
      escapeRules = [\<lparr>initialFragment = 1, replacement = 3\<rparr>,
                     \<lparr>initialFragment = 2, replacement = 3\<rparr>]\<rparr> \<notin> set [1, 2]
   \<and> escapeByte \<lparr>messageMaxLength = 256, endByte = 192, escapeByte = 219,
      escapeRules = [\<lparr>initialFragment = 1, replacement = 3\<rparr>,
                     \<lparr>initialFragment = 2, replacement = 3\<rparr>]\<rparr> \<notin> set [1, 2]
   \<and> unescape \<lparr>messageMaxLength = 256, endByte = 192, escapeByte = 219,
      escapeRules = [\<lparr>initialFragment = 1, replacement = 3\<rparr>,
                     \<lparr>initialFragment = 2, replacement = 3\<rparr>]\<rparr>
       (encode \<lparr>messageMaxLength = 256, endByte = 192, escapeByte = 219,
      escapeRules = [\<lparr>initialFragment = 1, replacement = 3\<rparr>,
                     \<lparr>initialFragment = 2, replacement = 3\<rparr>]\<rparr> [1, 2]) = Some [1, 1]
   \<and> unescape \<lparr>messageMaxLength = 256, endByte = 192, escapeByte = 219,
      escapeRules = [\<lparr>initialFragment = 1, replacement = 3\<rparr>,
                     \<lparr>initialFragment = 2, replacement = 3\<rparr>]\<rparr>
       (encode \<lparr>messageMaxLength = 256, endByte = 192, escapeByte = 219,
      escapeRules = [\<lparr>initialFragment = 1, replacement = 3\<rparr>,
                     \<lparr>initialFragment = 2, replacement = 3\<rparr>]\<rparr> [1, 2]) \<noteq> Some [1, 2]"
  by (simp add: encode_def encodeByte_def)

section \<open>Encoded frames through the reassembler\<close>

lemma deliver_encoded:
  assumes "soundProtocol p" "m \<noteq> []" "length (encode p m) \<le> capacity"
  shows "deliver (unescape p) (encode p m) = [m]"
  using assms by (simp add: deliver_def encode_not_Nil unescape_encode)

text \<open>
  Claim C2, as amended: under a sound protocol definition (the end byte differs from the
  escape byte, the rules cover both, no two rules share a replacement and no replacement is
  the end byte), with no partial frame pending, for non-empty payloads \<open>m1\<close> and
  \<open>m2\<close> whose encodings are each at most \<open>capacity\<close> bytes long, the chunk made of the
  encoding of \<open>m1\<close>, the end byte, the encoding of \<open>m2\<close> and the end byte fires exactly
  the messages \<open>m1\<close> and \<open>m2\<close>, in that order.
\<close>

theorem two_frames_in_one_chunk:
  assumes "soundProtocol p" and "wellFormed s" and "writeCursor s = 0"
    and "m1 \<noteq> []" and "m2 \<noteq> []"
    and "length (encode p m1) \<le> capacity" and "length (encode p m2) \<le> capacity"
  shows "snd (collectDataAndFireMessageEvent (unescape p) (endByte p) s
                (encode p m1 @ [endByte p] @ encode p m2 @ [endByte p])) = [m1, m2]"
proof -
  let ?e = "endByte p"
  have e1: "?e \<notin> set (encode p m1)" and e2: "?e \<notin> set (encode p m2)"
    using assms(1) by (simp_all add: encode_no_end)
  have t: "terminated ?e [] (encode p m1 @ ?e # encode p m2 @ [?e]) = [encode p m1, encode p m2]"
    by (simp add: terminated_end [OF e1] terminated_end [OF e2])
  show ?thesis
    using collect_refines [OF assms(2), of "unescape p" ?e "encode p m1 @ ?e # encode p m2 @ [?e]"]
    by (simp add: pending_cursor_0 [OF assms(3)] t deliver_encoded assms)
qed

text \<open>The default protocol definition, the payloads 1, 192, 2 and 219.\<close>

theorem two_frames_in_one_chunk_witness:
  "soundProtocol defaultProtocolDefinition \<and> wellFormed initialClosure
   \<and> writeCursor initialClosure = 0 \<and> [1, 192, 2] \<noteq> ([] :: buffer) \<and> [219] \<noteq> ([] :: buffer)
   \<and> length (encode defaultProtocolDefinition [1, 192, 2]) \<le> capacity
   \<and> length (encode defaultProtocolDefinition [219]) \<le> capacity
   \<and> snd (collectDataAndFireMessageEvent (unescape defaultProtocolDefinition)
            (endByte defaultProtocolDefinition) initialClosure
            (encode defaultProtocolDefinition [1, 192, 2] @ [endByte defaultProtocolDefinition]
              @ encode defaultProtocolDefinition [219] @ [endByte defaultProtocolDefinition]))
       = [[1, 192, 2], [219]]"
proof -
  have 3: "writeCursor initialClosure = 0" by (simp add: initialClosure_def)
  have 4: "[1, 192, 2] \<noteq> ([] :: buffer)" and 5: "[219] \<noteq> ([] :: buffer)" by simp_all
  have 6: "length (encode defaultProtocolDefinition [1, 192, 2]) \<le> capacity"
    and 7: "length (encode defaultProtocolDefinition [219]) \<le> capacity"
    by (simp_all add: encode_def encodeByte_def defaultProtocolDefinition_def capacity_def)
  from two_frames_in_one_chunk [OF soundProtocol_default wellFormed_initial 3 4 5 6 7]
    soundProtocol_default wellFormed_initial 3 4 5 6 7
  show ?thesis by blast
qed

text \<open>
  Claim C2 as stated fails for an empty payload: with \<open>m1\<close> empty and \<open>m2\<close> the one
  byte 1 the chunk is 192, 1, 192, and the only message fired is \<open>m2\<close>.
\<close>

theorem two_frames_counterexample:
  "snd (collectDataAndFireMessageEvent (unescape defaultProtocolDefinition)
            (endByte defaultProtocolDefinition) initialClosure
            (encode defaultProtocolDefinition [] @ [endByte defaultProtocolDefinition]
              @ encode defaultProtocolDefinition [1] @ [endByte defaultProtocolDefinition]))
     = [[1]]
   \<and> snd (collectDataAndFireMessageEvent (unescape defaultProtocolDefinition)
            (endByte defaultProtocolDefinition) initialClosure
            (encode defaultProtocolDefinition [] @ [endByte defaultProtocolDefinition]
              @ encode defaultProtocolDefinition [1] @ [endByte defaultProtocolDefinition]))
     \<noteq> [[], [1]]
   \<and> encode defaultProtocolDefinition [] @ [endByte defaultProtocolDefinition]
       @ encode defaultProtocolDefinition [1] @ [endByte defaultProtocolDefinition]
     = [192, 1, 192]"
proof -
  have p: "pending initialClosure = []" by (simp add: pending_def initialClosure_def)
  show ?thesis
    using collect_refines [OF wellFormed_initial, of "unescape defaultProtocolDefinition" 192 "[192, 1, 192]"]
    by (simp add: p deliver_def capacity_def encode_def encodeByte_def defaultProtocolDefinition_def)
qed

text \<open>
  Claim C5, as amended: under a sound protocol definition, with no partial frame pending,
  a frame of at most \<open>capacity\<close> bytes that the decoder rejects, fed with its end byte,
  fires no message and leaves the write cursor at 0; the encoding of a non-empty payload of
  at most \<open>capacity\<close> bytes, fed with its end byte in the next call, then fires exactly
  that payload.
\<close>

theorem malformed_frame_dropped:
  assumes "soundProtocol p" and "wellFormed s" and "writeCursor s = 0"
    and "endByte p \<notin> set frame" and "length frame \<le> capacity"
    and "unescape p frame = None"
    and "m \<noteq> []" and "length (encode p m) \<le> capacity"
  shows "snd (collectDataAndFireMessageEvent (unescape p) (endByte p) s (frame @ [endByte p])) = []
       \<and> writeCursor (fst (collectDataAndFireMessageEvent (unescape p) (endByte p) s
                              (frame @ [endByte p]))) = 0
       \<and> snd (collectDataAndFireMessageEvent (unescape p) (endByte p)
                 (fst (collectDataAndFireMessageEvent (unescape p) (endByte p) s
                         (frame @ [endByte p])))
                 (encode p m @ [endByte p])) = [m]"
proof -
  let ?e = "endByte p" and ?u = "unescape p"
  let ?s1 = "fst (collectDataAndFireMessageEvent ?u ?e s (frame @ [?e]))"
  have d: "deliver ?u frame = []"
    using assms(5,6) by (simp add: deliver_def)
  have 1: "snd (collectDataAndFireMessageEvent ?u ?e s (frame @ [?e])) = []"
    using collect_refines [OF assms(2), of ?u ?e "frame @ [?e]"]
    by (simp add: pending_cursor_0 [OF assms(3)] terminated_end [OF assms(4)] d)
  have 2: "writeCursor ?s1 = 0" by (rule collect_ends_reset)
  have wf1: "wellFormed ?s1" using assms(2) by (rule wellFormed_collect)
  have e: "?e \<notin> set (encode p m)" using assms(1) by (rule encode_no_end)
  have 3: "snd (collectDataAndFireMessageEvent ?u ?e ?s1 (encode p m @ [?e])) = [m]"
    using collect_refines [OF wf1, of ?u ?e "encode p m @ [?e]"]
    by (simp add: pending_cursor_0 [OF 2] terminated_end [OF e] deliver_encoded assms)
  from 1 2 3 show ?thesis by blast
qed

text \<open>
  The default protocol definition: the escape byte right before the end byte, then the
  frame of the payload 1, 192, 2.
\<close>

theorem malformed_frame_dropped_witness:
  "soundProtocol defaultProtocolDefinition \<and> wellFormed initialClosure
   \<and> writeCursor initialClosure = 0
   \<and> endByte defaultProtocolDefinition \<notin> set [escapeByte defaultProtocolDefinition]
   \<and> length [escapeByte defaultProtocolDefinition] \<le> capacity
   \<and> unescape defaultProtocolDefinition [escapeByte defaultProtocolDefinition] = None
   \<and> [1, 192, 2] \<noteq> ([] :: buffer)
   \<and> length (encode defaultProtocolDefinition [1, 192, 2]) \<le> capacity
   \<and> snd (collectDataAndFireMessageEvent (unescape defaultProtocolDefinition)
            (endByte defaultProtocolDefinition) initialClosure
            [escapeByte defaultProtocolDefinition, endByte defaultProtocolDefinition]) = []
   \<and> snd (collectDataAndFireMessageEvent (unescape defaultProtocolDefinition)
            (endByte defaultProtocolDefinition)
            (fst (collectDataAndFireMessageEvent (unescape defaultProtocolDefinition)
                   (endByte defaultProtocolDefinition) initialClosure
                   [escapeByte defaultProtocolDefinition, endByte defaultProtocolDefinition]))
            (encode defaultProtocolDefinition [1, 192, 2] @ [endByte defaultProtocolDefinition]))
       = [[1, 192, 2]]"
proof -
  let ?D = defaultProtocolDefinition
  have 3: "writeCursor initialClosure = 0" by (simp add: initialClosure_def)
  have 4: "endByte ?D \<notin> set [escapeByte ?D]" by (simp add: defaultProtocolDefinition_def)
  have 5: "length [escapeByte ?D] \<le> capacity" by (simp add: capacity_def)
  have 6: "unescape ?D [escapeByte ?D] = None" by simp
  have 7: "[1, 192, 2] \<noteq> ([] :: buffer)" by simp
  have 8: "length (encode ?D [1, 192, 2]) \<le> capacity"
    by (simp add: encode_def encodeByte_def defaultProtocolDefinition_def capacity_def)
  from malformed_frame_dropped [OF soundProtocol_default wellFormed_initial 3 4 5 6 7 8]
    soundProtocol_default wellFormed_initial 3 4 5 6 7 8
  show ?thesis by simp
qed

text \<open>
  Claim C5 as stated fails for a frame longer than the buffer: 10240 bytes 1 followed by
  the escape byte is a frame the decoder rejects (the escape byte is its last byte), but
  only its first 10240 bytes are buffered, and they are decoded and fired as a message.
\<close>

theorem malformed_frame_counterexample:
  "endByte defaultProtocolDefinition \<notin> set (replicate 10240 1 @ [escapeByte defaultProtocolDefinition])
   \<and> unescape defaultProtocolDefinition
        (replicate 10240 1 @ [escapeByte defaultProtocolDefinition]) = None
   \<and> snd (collectDataAndFireMessageEvent (unescape defaultProtocolDefinition)
            (endByte defaultProtocolDefinition) initialClosure
            ((replicate 10240 1 @ [escapeByte defaultProtocolDefinition])
               @ [endByte defaultProtocolDefinition])) = [replicate 10240 1]
   \<and> snd (collectDataAndFireMessageEvent (unescape defaultProtocolDefinition)
            (endByte defaultProtocolDefinition) initialClosure
            ((replicate 10240 1 @ [escapeByte defaultProtocolDefinition])
               @ [endByte defaultProtocolDefinition])) \<noteq> []"
proof -
  let ?D = defaultProtocolDefinition
  let ?f = "replicate 10240 1 @ [escapeByte ?D]"
  have esc: "escapeByte ?D \<notin> set (replicate 10240 1)"
    and en: "endByte ?D \<notin> set ?f"
    by (simp_all add: defaultProtocolDefinition_def)
  have 2: "unescape ?D ?f = None"
    by (simp add: unescape_plain_append [OF esc])
  have p: "pending initialClosure = []" by (simp add: pending_def initialClosure_def)
  have t: "take capacity ?f = replicate 10240 1" by (simp add: capacity_def)
  have d: "deliver (unescape ?D) ?f = [replicate 10240 1]"
    unfolding deliver_def t by (simp add: unescape_no_escape [OF esc])
  have 3: "snd (collectDataAndFireMessageEvent (unescape ?D) (endByte ?D) initialClosure
             (?f @ [endByte ?D])) = [replicate 10240 1]"
    using collect_refines [OF wellFormed_initial, of "unescape ?D" "endByte ?D" "?f @ [endByte ?D]"]
    by (simp only: p terminated_end [OF en] terminated.simps append_Nil list.map concat.simps d append_Nil2)
  have 4: "snd (collectDataAndFireMessageEvent (unescape ?D) (endByte ?D) initialClosure
             (?f @ [endByte ?D])) \<noteq> []"
    unfolding 3 by simp
  from en 2 3 4 show ?thesis by blast
qed

text \<open>
  The scenario of a frame cut inside an escape sequence, with the default protocol
  definition: the payload 1, 192, 2 is encoded as 1, 219, 220, 2; fed with its end byte as
  the chunks 1, 219 and 220, 2, 192, it is fired as the message 1, 192, 2.
\<close>

lemma split_escape_scenario:
  "encode defaultProtocolDefinition [1, 192, 2] = [1, 219, 220, 2]
   \<and> snd (feedChunks (unescape defaultProtocolDefinition) (endByte defaultProtocolDefinition)
            initialClosure [[1, 219], [220, 2, 192]]) = [[1, 192, 2]]"
proof -
  have p: "pending initialClosure = []" by (simp add: pending_def initialClosure_def)
  have 1: "encode defaultProtocolDefinition [1, 192, 2] = [1, 219, 220, 2]"
    by (simp add: encode_def encodeByte_def defaultProtocolDefinition_def)
  have 2: "snd (feedChunks (unescape defaultProtocolDefinition) 192
            initialClosure [[1, 219], [220, 2, 192]]) = [[1, 192, 2]]"
    using collect_refines [OF wellFormed_initial, of "unescape defaultProtocolDefinition" 192
            "concat [[1, 219], [220, 2, 192]]"]
    unfolding feedChunks_concat
    by (simp add: p deliver_def capacity_def defaultProtocolDefinition_def)
  have e: "endByte defaultProtocolDefinition = 192" by (simp add: defaultProtocolDefinition_def)
  from 1 2 show ?thesis unfolding e by blast
qed

section \<open>Instances share the closure\<close>

text \<open>
  Claim C8, at a failing input: two instances with the default protocol definition.  The
  first is handed the chunk 1, 2, the second the chunk 3, 192.  The bytes of the first are
  pending in the closure when the second chunk arrives; the buffer the second instance
  hands to the unescape function is 1, 2, 3, its message event carries the result, and the
  partial frame of the first instance is gone.
\<close>

theorem shared_buffer_crosstalk:
  "events (onData u (1, defaultInstance) [3, 192] (onData u (0, defaultInstance) [1, 2] moduleLoaded))
     = map (Pair 1) (case u [1, 2, 3] of Some msg \<Rightarrow> [msg] | None \<Rightarrow> [])
   \<and> pending (shared (onData u (0, defaultInstance) [1, 2] moduleLoaded)) = [1, 2]
   \<and> pending (shared (onData u (1, defaultInstance) [3, 192]
                (onData u (0, defaultInstance) [1, 2] moduleLoaded))) = []"
proof -
  let ?s1 = "fst (collectDataAndFireMessageEvent u 192 initialClosure [1, 2])"
  have p: "pending initialClosure = []" by (simp add: pending_def initialClosure_def)
  have e: "this_endByte defaultInstance = 192"
    by (simp add: defaultInstance_def defaultProtocolDefinition_def)
  have wf1: "wellFormed ?s1" using wellFormed_initial by (rule wellFormed_collect)
  have r0: "snd (collectDataAndFireMessageEvent u 192 initialClosure [1, 2]) = []"
    and p1: "pending ?s1 = [1, 2]"
    using collect_refines [OF wellFormed_initial, of u 192 "[1, 2]"]
    by (simp_all add: p capacity_def)
  have r1: "snd (collectDataAndFireMessageEvent u 192 ?s1 [3, 192])
          = (case u [1, 2, 3] of Some msg \<Rightarrow> [msg] | None \<Rightarrow> [])"
    and p2: "pending (fst (collectDataAndFireMessageEvent u 192 ?s1 [3, 192])) = []"
    using collect_refines [OF wf1, of u 192 "[3, 192]"]
    by (simp_all add: p1 deliver_def capacity_def)
  show ?thesis
    by (simp add: onData_def moduleLoaded_def e case_prod_beta Let_def r0 r1 p1 p2)
qed

section \<open>Construction\<close>

lemma defaults_fills:
  "messageMaxLengthOpt (defaults q) = Some (case messageMaxLengthOpt q of None \<Rightarrow> 256 | Some v \<Rightarrow> v)
   \<and> endByteOpt (defaults q) = Some (case endByteOpt q of None \<Rightarrow> 192 | Some v \<Rightarrow> v)
   \<and> escapeByteOpt (defaults q) = Some (case escapeByteOpt q of None \<Rightarrow> 219 | Some v \<Rightarrow> v)
   \<and> escapeRulesOpt (defaults q) = Some (case escapeRulesOpt q of
         None \<Rightarrow> [\<lparr>initialFragmentOpt = Some 192, replacementOpt = Some 220\<rparr>,
                   \<lparr>initialFragmentOpt = Some 219, replacementOpt = Some 221\<rparr>]
       | Some v \<Rightarrow> v)"
  by (simp add: defaults_def defaultProtocolDefinition_def ruleObjectOf_def split: option.splits)

lemma default_construction_accepted:
  "outcome (SLIP None) = Inr defaultInstance
   \<and> outcome (SLIP (Some \<lparr>messageMaxLengthOpt = Some 256, endByteOpt = Some 192,
          escapeByteOpt = Some 219,
          escapeRulesOpt = Some [\<lparr>initialFragmentOpt = Some 192, replacementOpt = Some 220\<rparr>,
                                 \<lparr>initialFragmentOpt = Some 219, replacementOpt = Some 221\<rparr>]\<rparr>))
       = Inr defaultInstance"
  by (simp add: SLIP_def applyProtocol_def defaults_def emptyObject_def defaultInstance_def
      defaultProtocolDefinition_def ruleObjectOf_def ruleOf_def collide_def missingField_def)

text \<open>
  Claim C9, as amended: the constructor first runs the \<open>SerialPort\<close> constructor and fills
  the protocol object passed, in place, with the defaults (256, 192, 219, the rules 192 to
  220 and 219 to 221) for what it does not set.  Let the maximal length, the end byte, the
  escape byte and the rules be those of the filled object.  Construction fails with
  \<open>ConfigError\<close>, and yields no instance, when one of the rules lacks a field, the end
  byte is the escape byte or two rules have the same initial fragment; otherwise it yields
  the instance that holds exactly these values.  Passing no protocol is passing an empty
  object that the caller does not see.
\<close>

theorem construction_validates_protocol:
  fixes supplied :: protocolObject
  defines "n \<equiv> (case messageMaxLengthOpt supplied of None \<Rightarrow> 256 | Some v \<Rightarrow> v)"
    and "e \<equiv> (case endByteOpt supplied of None \<Rightarrow> 192 | Some v \<Rightarrow> v)"
    and "x \<equiv> (case escapeByteOpt supplied of None \<Rightarrow> 219 | Some v \<Rightarrow> v)"
    and "rules \<equiv> (case escapeRulesOpt supplied of
           None \<Rightarrow> [\<lparr>initialFragmentOpt = Some 192, replacementOpt = Some 220\<rparr>,
                     \<lparr>initialFragmentOpt = Some 219, replacementOpt = Some 221\<rparr>]
         | Some v \<Rightarrow> v)"
  shows "superConstructed (SLIP (Some supplied))
       \<and> suppliedObject (SLIP (Some supplied))
           = Some \<lparr>messageMaxLengthOpt = Some n, endByteOpt = Some e, escapeByteOpt = Some x,
                   escapeRulesOpt = Some rules\<rparr>
       \<and> (list_ex missingField rules \<or> collide e x rules
            \<longrightarrow> outcome (SLIP (Some supplied)) = Inl ConfigError)
       \<and> (\<not> list_ex missingField rules \<and> \<not> collide e x rules
            \<longrightarrow> outcome (SLIP (Some supplied))
                 = Inr \<lparr>this_protocol = \<lparr>messageMaxLength = n, endByte = e, escapeByte = x,
                                           escapeRules = map ruleOf rules\<rparr>,
                        this_endByte = e\<rparr>)
       \<and> superConstructed (SLIP None)
       \<and> suppliedObject (SLIP None) = None
       \<and> outcome (SLIP None) = outcome (SLIP (Some emptyObject))"
proof -
  have d: "defaults supplied = \<lparr>messageMaxLengthOpt = Some n, endByteOpt = Some e,
              escapeByteOpt = Some x, escapeRulesOpt = Some rules\<rparr>"
    unfolding n_def e_def x_def rules_def
    by (simp add: defaults_def defaultProtocolDefinition_def ruleObjectOf_def split: option.splits)
  show ?thesis
    by (simp add: SLIP_def d applyProtocol_def Let_def)
qed

text \<open>
  An object that only sets the end byte to 219 (the default escape byte) and one whose
  only rule lacks its replacement are refused; one that only sets the rules to the single
  rule 1 to 2 gives an instance with the default bytes and that rule.
\<close>

theorem construction_validates_protocol_witness:
  "collide 219 219 [\<lparr>initialFragmentOpt = Some 192, replacementOpt = Some 220\<rparr>,
                    \<lparr>initialFragmentOpt = Some 219, replacementOpt = Some 221\<rparr>]
   \<and> outcome (SLIP (Some \<lparr>messageMaxLengthOpt = None, endByteOpt = Some 219,
                  escapeByteOpt = None, escapeRulesOpt = None\<rparr>)) = Inl ConfigError
   \<and> list_ex missingField [\<lparr>initialFragmentOpt = Some 1, replacementOpt = None\<rparr>]
   \<and> outcome (SLIP (Some \<lparr>messageMaxLengthOpt = None, endByteOpt = None, escapeByteOpt = None,
                  escapeRulesOpt = Some [\<lparr>initialFragmentOpt = Some 1, replacementOpt = None\<rparr>]\<rparr>))
       = Inl ConfigError
   \<and> \<not> list_ex missingField [\<lparr>initialFragmentOpt = Some 1, replacementOpt = Some 2\<rparr>]
   \<and> \<not> collide 192 219 [\<lparr>initialFragmentOpt = Some 1, replacementOpt = Some 2\<rparr>]
   \<and> outcome (SLIP (Some \<lparr>messageMaxLengthOpt = None, endByteOpt = None, escapeByteOpt = None,
                  escapeRulesOpt = Some [\<lparr>initialFragmentOpt = Some 1, replacementOpt = Some 2\<rparr>]\<rparr>))
       = Inr \<lparr>this_protocol = \<lparr>messageMaxLength = 256, endByte = 192, escapeByte = 219,
                 escapeRules = [\<lparr>initialFragment = 1, replacement = 2\<rparr>]\<rparr>,
              this_endByte = 192\<rparr>
   \<and> suppliedObject (SLIP (Some \<lparr>messageMaxLengthOpt = None, endByteOpt = None,
                  escapeByteOpt = None,
                  escapeRulesOpt = Some [\<lparr>initialFragmentOpt = Some 1, replacementOpt = Some 2\<rparr>]\<rparr>))
       = Some \<lparr>messageMaxLengthOpt = Some 256, endByteOpt = Some 192, escapeByteOpt = Some 219,
                escapeRulesOpt = Some [\<lparr>initialFragmentOpt = Some 1, replacementOpt = Some 2\<rparr>]\<rparr>"
  using construction_validates_protocol
          [of "\<lparr>messageMaxLengthOpt = None, endByteOpt = Some 219, escapeByteOpt = None,
                escapeRulesOpt = None\<rparr>"]
        construction_validates_protocol
          [of "\<lparr>messageMaxLengthOpt = None, endByteOpt = None, escapeByteOpt = None,
                escapeRulesOpt = Some [\<lparr>initialFragmentOpt = Some 1, replacementOpt = None\<rparr>]\<rparr>"]
        construction_validates_protocol
          [of "\<lparr>messageMaxLengthOpt = None, endByteOpt = None, escapeByteOpt = None,
                escapeRulesOpt = Some [\<lparr>initialFragmentOpt = Some 1, replacementOpt = Some 2\<rparr>]\<rparr>"]
  by (simp add: collide_def missingField_def ruleOf_def)

text \<open>
  Claim C9 as stated fails where it excludes partial construction: an object that sets
  both the end byte and the escape byte to 219 is refused with \<open>ConfigError\<close>, but by
  then the \<open>SerialPort\<close> constructor has run and the object has been filled with the
  default length and rules, so the caller's object is no longer the one passed.
\<close>

theorem construction_counterexample:
  "outcome (SLIP (Some \<lparr>messageMaxLengthOpt = None, endByteOpt = Some 219,
                  escapeByteOpt = Some 219, escapeRulesOpt = None\<rparr>)) = Inl ConfigError
   \<and> superConstructed (SLIP (Some \<lparr>messageMaxLengthOpt = None, endByteOpt = Some 219,
                  escapeByteOpt = Some 219, escapeRulesOpt = None\<rparr>))
   \<and> suppliedObject (SLIP (Some \<lparr>messageMaxLengthOpt = None, endByteOpt = Some 219,
                  escapeByteOpt = Some 219, escapeRulesOpt = None\<rparr>))
       = Some \<lparr>messageMaxLengthOpt = Some 256, endByteOpt = Some 219, escapeByteOpt = Some 219,
                escapeRulesOpt = Some [\<lparr>initialFragmentOpt = Some 192, replacementOpt = Some 220\<rparr>,
                                       \<lparr>initialFragmentOpt = Some 219, replacementOpt = Some 221\<rparr>]\<rparr>
   \<and> suppliedObject (SLIP (Some \<lparr>messageMaxLengthOpt = None, endByteOpt = Some 219,
                  escapeByteOpt = Some 219, escapeRulesOpt = None\<rparr>))
       \<noteq> Some \<lparr>messageMaxLengthOpt = None, endByteOpt = Some 219,
                  escapeByteOpt = Some 219, escapeRulesOpt = None\<rparr>"
  by (simp add: SLIP_def applyProtocol_def defaults_def defaultProtocolDefinition_def
      ruleObjectOf_def collide_def Let_def)

end
